theory Spec2Isabelle
  imports Complex_Main "HOL-Library.List_Lexorder" "HOL-Library.Char_ord"
begin

section \<open>Data model\<close>

text \<open>
  Times (\<^verbatim>\<open>time.Time\<close>) are nanoseconds since the epoch and durations
  (\<^verbatim>\<open>time.Duration\<close>) are nanoseconds, both of type \<open>int\<close>. Strings are compared
  byte by byte, as \<^verbatim>\<open>sort.Strings\<close> does.
\<close>

definition CANDIDATE_SCORE_FORCE_RUN :: real where
  "CANDIDATE_SCORE_FORCE_RUN = 100"

definition CANDIDATE_SCORE_TRY_JOB :: real where
  "CANDIDATE_SCORE_TRY_JOB = 10"

definition MAX_BLAMELIST_COMMITS :: nat where
  "MAX_BLAMELIST_COMMITS = 500"

definition Hour :: int where
  "Hour = 3600000000000"

text \<open>\<^verbatim>\<open>Duration.Hours()\<close>: the duration as a number of hours.\<close>

definition Hours :: "int \<Rightarrow> real" where
  "Hours d = real_of_int d / real_of_int Hour"

datatype job_status =
  JOB_STATUS_IN_PROGRESS | JOB_STATUS_SUCCESS | JOB_STATUS_FAILURE
  | JOB_STATUS_MISHAP | JOB_STATUS_CANCELED

datatype task_status =
  TASK_STATUS_PENDING | TASK_STATUS_RUNNING | TASK_STATUS_SUCCESS
  | TASK_STATUS_FAILURE | TASK_STATUS_MISHAP

text \<open>
  The errors of the scheduling core. \<open>ERR_BLAMELIST_DONE\<close> is the sentinel of
  \<^verbatim>\<open>ComputeBlamelist\<close>; the others stand for the \<^verbatim>\<open>fmt.Errorf\<close> values of the
  source, and \<open>ExternalError\<close> for an error returned by the store, the caches or the
  window.
\<close>

datatype error =
  ERR_BLAMELIST_DONE
  | NoSuchCommit string
  | NoSuchRepo string
  | NoSuchCommitInRepo string string
  | JobAlreadyFinished string job_status
  | JobFinishedNotDone job_status
  | ExternalError string

text \<open>
  \<^verbatim>\<open>repograph.Commit\<close>: a commit with pointers to its parents. The history of a
  commit is acyclic, so the pointer structure is a finite tree in which a shared
  ancestor occurs once for every path to it; commits are identified by their hash.
\<close>

datatype commit = Commit (Hash: string) (Timestamp: int) (Parents: "commit list")

text \<open>
  Modelled from the spec: \<^verbatim>\<open>repograph.Graph\<close> is not part of the sources at hand.
  The repository graph offers ``get commit by hash''; the graph is the list of its
  commits and \<open>Get\<close> returns the commit with the given hash, if there is one.
\<close>

type_synonym Graph = "commit list"

definition Get :: "Graph \<Rightarrow> string \<Rightarrow> commit option" where
  "Get r h = find (\<lambda>c. Hash c = h) r"

record RepoState =
  rs_Repo :: string
  rs_Revision :: string

text \<open>
  \<^verbatim>\<open>db.TaskKey\<close>. Modelled from the spec: the key is
  \<open>(repo, revision, spec_name, forced_job_id)\<close>, the try-job patch is the flag
  \<open>IsTryJob\<close>, and a force run is a key whose \<open>ForcedJobId\<close> is set.
\<close>

record TaskKey =
  Repo :: string
  Revision :: string
  IsTryJob :: bool
  Name :: string
  ForcedJobId :: string

definition IsForceRun :: "'a TaskKey_scheme \<Rightarrow> bool" where
  "IsForceRun k = (ForcedJobId k \<noteq> [])"

text \<open>\<^verbatim>\<open>db.Job\<close>, with the fields that \<^verbatim>\<open>CancelJob\<close> reads and writes.\<close>

record Job =
  Id :: string
  Created :: int
  Status :: job_status
  Finished :: int

text \<open>
  Modelled from the spec: \<^verbatim>\<open>Job.Done\<close> is not part of the sources at hand. A job is
  done when its status is terminal; of the five job statuses only \<open>in-progress\<close> is
  not terminal.
\<close>

definition Done :: "Job \<Rightarrow> bool" where
  "Done j = (Job.Status j \<noteq> JOB_STATUS_IN_PROGRESS)"

text \<open>\<^verbatim>\<open>db.Task\<close>: the key is embedded, as in the source.\<close>

record Task = TaskKey +
  Id :: string
  Created :: int
  Status :: task_status
  Attempt :: int
  RetryOf :: string
  Commits :: "string list"
  IsolatedOutput :: string

text \<open>Modelled from the spec: \<^verbatim>\<open>Task.Success\<close>, the task succeeded.\<close>

definition Success :: "Task \<Rightarrow> bool" where
  "Success t = (Task.Status t = TASK_STATUS_SUCCESS)"

text \<open>
  \<^verbatim>\<open>db.TaskCache\<close> (and the scratch \<^verbatim>\<open>cacheWrapper\<close> over it): an external
  collaborator, given by the answers of the two lookups that the scheduling core uses.
  \<open>GetTasksByKey\<close> returns the tasks of a key sorted by creation time.
\<close>

record TaskCache =
  GetTaskForCommit :: "string \<Rightarrow> string \<Rightarrow> string \<Rightarrow> error + Task option"
  GetTasksByKey :: "TaskKey \<Rightarrow> error + Task list"

text \<open>\<^verbatim>\<open>swarming_api.SwarmingRpcsBotInfo\<close> and its dimensions.\<close>

record SwarmingRpcsStringListPair =
  Key :: string
  Value :: "string list"

record SwarmingRpcsBotInfo =
  BotId :: string
  Dimensions :: "SwarmingRpcsStringListPair list"

text \<open>\<^verbatim>\<open>specs.TaskSpec\<close>, with the fields that the scheduling core reads.\<close>

record TaskSpec =
  Dependencies :: "string list"
  Dimensions :: "string list"
  MaxAttempts :: int

text \<open>\<^verbatim>\<open>taskCandidate\<close>: the key is embedded, as in the source.\<close>

record taskCandidate = TaskKey +
  Attempt :: int
  Commits :: "string list"
  IsolatedHashes :: "string list"
  JobCreated :: int
  ParentTaskIds :: "string list"
  RetryOf :: string
  Score :: real
  StealingFromId :: string
  TaskSpec :: TaskSpec

text \<open>
  The external collaborators of \<^verbatim>\<open>TaskScheduler\<close>: the blacklist, the window, the
  job store and the job cache. The job store and the job cache hold jobs by id; each
  may answer a write (a refresh) with an error.
\<close>

record Blacklist =
  MatchRule :: "string \<Rightarrow> string \<Rightarrow> string"

record Window =
  TestTime :: "string \<Rightarrow> int \<Rightarrow> bool"
  TestCommitHash :: "string \<Rightarrow> string \<Rightarrow> error + bool"

record DB =
  stored_jobs :: "string \<rightharpoonup> Job"
  put_error :: "error option"

record JobCache =
  cached_jobs :: "string \<rightharpoonup> Job"
  update_error :: "error option"

record TaskScheduler =
  bl :: Blacklist
  db :: DB
  jCache :: JobCache
  newTasks :: "RepoState \<rightharpoonup> string set"
  repos :: "string \<rightharpoonup> Graph"
  tCache :: TaskCache
  timeDecayAmt24Hr :: real
  window :: Window

section \<open>Walking the commit history\<close>

text \<open>
  Modelled from the spec: \<^verbatim>\<open>Commit.Recurse\<close> is not part of the sources at hand. It
  is the canonical recursion over the commit graph: the callback runs on the commit
  first, then the walk descends into the parents in their order (first parent, then
  the merged ones), visiting no commit twice. The callback returns whether to descend
  into the parents of the commit, and an error ends the whole walk. The callback of the
  source is a closure that writes its captured variables; here it takes their values
  \<open>s\<close> and returns the new ones, also when it returns an error.
\<close>

fun recurse ::
    "(commit \<Rightarrow> 's \<Rightarrow> 's \<times> bool \<times> error option) \<Rightarrow> commit
      \<Rightarrow> string list \<times> 's \<Rightarrow> (string list \<times> 's) \<times> error option"
  and recurse_parents ::
    "(commit \<Rightarrow> 's \<Rightarrow> 's \<times> bool \<times> error option) \<Rightarrow> commit list
      \<Rightarrow> string list \<times> 's \<Rightarrow> (string list \<times> 's) \<times> error option"
where
  "recurse f (Commit h t ps) (visited, s) =
     (case f (Commit h t ps) s of
        (s', keepGoing, Some err) \<Rightarrow> ((h # visited, s'), Some err)
      | (s', keepGoing, None) \<Rightarrow>
          if \<not> keepGoing then ((h # visited, s'), None)
          else recurse_parents f ps (h # visited, s'))"
| "recurse_parents f [] vs = (vs, None)"
| "recurse_parents f (p # ps) (visited, s) =
     (if Hash p \<in> set visited then recurse_parents f ps (visited, s)
      else (case recurse f p (visited, s) of
              (vs', Some err) \<Rightarrow> (vs', Some err)
            | (vs', None) \<Rightarrow> recurse_parents f ps vs'))"

definition Recurse ::
    "commit \<Rightarrow> (commit \<Rightarrow> 's \<Rightarrow> 's \<times> bool \<times> error option) \<Rightarrow> 's \<Rightarrow> 's \<times> error option" where
  "Recurse c f s = (case recurse f c ([], s) of ((visited, s'), err) \<Rightarrow> (s', err))"

section \<open>Blamelists\<close>

text \<open>
  The retry branch of \<^verbatim>\<open>ComputeBlamelist\<close>: the loop that looks every commit of the
  stolen blamelist up in the repository and appends it to the buffer. It stops at the
  first hash that the repository does not know.
\<close>

fun steal_all :: "Graph \<Rightarrow> string list \<Rightarrow> commit list \<Rightarrow> commit list \<times> error option" where
  "steal_all repo [] commitsBuf = (commitsBuf, None)"
| "steal_all repo (c # cs) commitsBuf =
     (case Get repo c of
        None \<Rightarrow> (commitsBuf, Some (NoSuchCommit c))
      | Some ptr \<Rightarrow> steal_all repo cs (commitsBuf @ [ptr]))"

text \<open>
  The tail of the callback of \<^verbatim>\<open>ComputeBlamelist\<close>: add the commit, and stop the walk
  on this path if the task spec is new at this commit.
\<close>

definition add_commit ::
    "string \<Rightarrow> string \<Rightarrow> (RepoState \<rightharpoonup> string set) \<Rightarrow> commit
      \<Rightarrow> commit list \<times> Task option \<Rightarrow> (commit list \<times> Task option) \<times> bool \<times> error option" where
  "add_commit taskName repoName new_tasks commit st =
     (case st of (commitsBuf, stealFrom) \<Rightarrow>
        (let commitsBuf' = commitsBuf @ [commit];
             rs = \<lparr>rs_Repo = repoName, rs_Revision = Hash commit\<rparr>
         in if (case new_tasks rs of None \<Rightarrow> False | Some names \<Rightarrow> taskName \<in> names)
            then ((commitsBuf', stealFrom), False, None)
            else ((commitsBuf', stealFrom), True, None)))"

text \<open>
  The callback that \<^verbatim>\<open>ComputeBlamelist\<close> passes to \<^verbatim>\<open>Recurse\<close>. Its captured
  variables are the buffer \<open>commitsBuf\<close> and \<open>stealFrom\<close>.
\<close>

definition blamelist_callback ::
    "TaskCache \<Rightarrow> Graph \<Rightarrow> string \<Rightarrow> string \<Rightarrow> commit \<Rightarrow> (RepoState \<rightharpoonup> string set)
      \<Rightarrow> commit \<Rightarrow> commit list \<times> Task option
      \<Rightarrow> (commit list \<times> Task option) \<times> bool \<times> error option" where
  "blamelist_callback cache repo taskName repoName revision new_tasks commit st =
     (case st of (commitsBuf, stealFrom) \<Rightarrow>
       (case GetTaskForCommit cache repoName (Hash commit) taskName of
          Inl err \<Rightarrow> ((commitsBuf, stealFrom), False, Some err)
        | Inr prev \<Rightarrow>
            if length commitsBuf > MAX_BLAMELIST_COMMITS
            then (([revision], stealFrom), False, Some ERR_BLAMELIST_DONE)
            else if prev = None \<and> stealFrom \<noteq> None
            then ((commitsBuf, stealFrom), False, None)
            else
              (case prev of
                 None \<Rightarrow> add_commit taskName repoName new_tasks commit (commitsBuf, stealFrom)
               | Some p \<Rightarrow>
                   (let stealFrom' = (if length commitsBuf = 0 then Some p else stealFrom)
                    in if length commitsBuf = 0 \<and> Revision p = Hash revision
                       then (case steal_all repo (Task.Commits p) [] of
                               (commitsBuf', Some err) \<Rightarrow>
                                 ((commitsBuf', stealFrom'), False, Some err)
                             | (commitsBuf', None) \<Rightarrow>
                                 ((commitsBuf', stealFrom'), False, Some ERR_BLAMELIST_DONE))
                       else if (case stealFrom' of None \<Rightarrow> True
                                | Some sf \<Rightarrow> Task.Id p \<noteq> Task.Id sf)
                       then ((commitsBuf, stealFrom'), False, None)
                       else add_commit taskName repoName new_tasks commit
                              (commitsBuf, stealFrom')))))"

text \<open>
  \<^verbatim>\<open>func ComputeBlamelist(cache, repo, taskName, repoName, revision, commitsBuf,
  newTasks) ([]string, *db.Task, error)\<close>. The scratch buffer is emptied first
  (\<^verbatim>\<open>commitsBuf[:0]\<close>).
\<close>

definition ComputeBlamelist ::
    "TaskCache \<Rightarrow> Graph \<Rightarrow> string \<Rightarrow> string \<Rightarrow> commit \<Rightarrow> commit list
      \<Rightarrow> (RepoState \<rightharpoonup> string set) \<Rightarrow> error + (string list \<times> Task option)" where
  "ComputeBlamelist cache repo taskName repoName revision commitsBuf new_tasks =
     (case Recurse revision
             (blamelist_callback cache repo taskName repoName revision new_tasks)
             ([], None) of
        ((commitsBuf', stealFrom), Some err) \<Rightarrow>
          if err \<noteq> ERR_BLAMELIST_DONE then Inl err
          else Inr (map Hash commitsBuf', stealFrom)
      | ((commitsBuf', stealFrom), None) \<Rightarrow> Inr (map Hash commitsBuf', stealFrom))"

section \<open>Scoring: testedness of a blamelist\<close>

text \<open>
  The scheduling core of the task scheduler (package \<open>scheduling\<close>). Go's \<open>int\<close> is
  modelled by \<open>int\<close>: on the inputs considered below (blamelist lengths) no operation of
  the source leaves the 64-bit range. Go's \<open>float64\<close> is modelled by \<open>real\<close>, that is,
  by exact arithmetic: rounding, infinities and NaN are not part of the model.
\<close>

text \<open>
  \<^verbatim>\<open>func testedness(n int) float64\<close>: the sum of the testedness of the commits of a
  blamelist of \<open>n\<close> commits.
\<close>

definition testedness :: "int \<Rightarrow> real" where
  "testedness n =
     (if n < 0 then - 1
      else if n = 0 then 0
      else if n = 1 then 1
      else 1 + real_of_int (n - 1) / real_of_int n)"

text \<open>
  \<^verbatim>\<open>func testednessIncrease(blamelistLength, stoleFromBlamelistLength int) float64\<close>
\<close>

definition testednessIncrease :: "int \<Rightarrow> int \<Rightarrow> real" where
  "testednessIncrease blamelistLength stoleFromBlamelistLength =
     (if blamelistLength \<le> 0 \<or> stoleFromBlamelistLength < 0 then - 1
      else if stoleFromBlamelistLength = 0 then
        (let beforeTestedness = real_of_int (- blamelistLength);
             afterTestedness = testedness blamelistLength
         in afterTestedness - beforeTestedness)
      else if blamelistLength = stoleFromBlamelistLength then 0
      else
        (let beforeTestedness = testedness stoleFromBlamelistLength;
             afterTestedness = testedness blamelistLength
               + testedness (stoleFromBlamelistLength - blamelistLength)
         in afterTestedness - beforeTestedness))"

subsection \<open>The reference definition of the specification\<close>

text \<open>
  The specification defines \<open>T\<close> on blamelist lengths \<open>N \<ge> 0\<close> only:
  \<open>T(0) = 0\<close>, \<open>T(1) = 1\<close>, \<open>T(N \<ge> 2) = 1 + (N - 1)/N\<close>.
\<close>

fun spec_T :: "nat \<Rightarrow> real" where
  "spec_T 0 = 0"
| "spec_T (Suc 0) = 1"
| "spec_T (Suc (Suc k)) = 1 + real (Suc k) / real (Suc (Suc k))"

text \<open>
  The specification's \<open>testedness_increase(n, m)\<close>: \<open>-1\<close> if \<open>n \<le> 0\<close> or \<open>m < 0\<close>;
  \<open>T(n) + n\<close> if \<open>m = 0\<close>; \<open>0\<close> if \<open>n = m\<close>; \<open>T(n) + T(m - n) - T(m)\<close> otherwise.
\<close>

definition spec_testedness_increase :: "int \<Rightarrow> int \<Rightarrow> real" where
  "spec_testedness_increase n m =
     (if n \<le> 0 \<or> m < 0 then - 1
      else if m = 0 then spec_T (nat n) + real_of_int n
      else if n = m then 0
      else spec_T (nat n) + spec_T (nat (m - n)) - spec_T (nat m))"

section \<open>Time decay\<close>

text \<open>\<^verbatim>\<open>func timeDecay24Hr(decayAmt24Hr float64, elapsed time.Duration) float64\<close>\<close>

definition timeDecay24Hr :: "real \<Rightarrow> int \<Rightarrow> real" where
  "timeDecay24Hr decayAmt24Hr elapsed =
     max (1 - (1 - decayAmt24Hr) * (real_of_int elapsed / real_of_int (24 * Hour))) 0"

text \<open>
  \<^verbatim>\<open>func (s *TaskScheduler) timeDecayForCommit(now, commit) (float64, error)\<close>; the
  error of the source is always \<^verbatim>\<open>nil\<close>.
\<close>

definition timeDecayForCommit :: "TaskScheduler \<Rightarrow> int \<Rightarrow> commit \<Rightarrow> error + real" where
  "timeDecayForCommit s now commit =
     (if timeDecayAmt24Hr s = 1 then Inr 1
      else Inr (timeDecay24Hr (timeDecayAmt24Hr s) (now - Timestamp commit)))"

text \<open>
  The decay factor that \<^verbatim>\<open>timeDecayForCommit\<close> returns for a commit.
\<close>

definition decay_of :: "TaskScheduler \<Rightarrow> int \<Rightarrow> commit \<Rightarrow> real" where
  "decay_of s now commit =
     (if timeDecayAmt24Hr s = 1 then 1
      else timeDecay24Hr (timeDecayAmt24Hr s) (now - Timestamp commit))"

section \<open>Processing a task candidate\<close>

text \<open>
  The scoring of an ordinary candidate, the last part of \<^verbatim>\<open>processTaskCandidate\<close>.
  A retry (\<open>RetryOf\<close> set) is scored as if it were new: the length of the blamelist
  stolen from is not used.
\<close>

definition score_candidate ::
    "TaskScheduler \<Rightarrow> taskCandidate \<Rightarrow> int \<Rightarrow> commit \<Rightarrow> Task option \<Rightarrow> error + taskCandidate" where
  "score_candidate s c now revision stealingFrom =
     (let stoleFromCommits =
            (case stealingFrom of
               None \<Rightarrow> 0
             | Some t \<Rightarrow> if RetryOf c \<noteq> [] then 0 else int (length (Task.Commits t)));
          score = testednessIncrease (int (length (Commits c))) stoleFromCommits
      in case timeDecayForCommit s now revision of
           Inl err \<Rightarrow> Inl err
         | Inr decay \<Rightarrow> Inr (c\<lparr>Score := score * decay\<rparr>))"

text \<open>
  \<^verbatim>\<open>func (s *TaskScheduler) processTaskCandidate(c, now, cache, commitsBuf) error\<close>.
  The source writes the candidate in place; the model returns the written candidate, or
  the error.
\<close>

definition processTaskCandidate ::
    "TaskScheduler \<Rightarrow> taskCandidate \<Rightarrow> int \<Rightarrow> TaskCache \<Rightarrow> commit list
      \<Rightarrow> error + taskCandidate" where
  "processTaskCandidate s c now cache commitsBuf =
     (if IsTryJob c
      then Inr (c\<lparr>Score := CANDIDATE_SCORE_TRY_JOB + Hours (now - JobCreated c)\<rparr>)
      else
        (case repos s (Repo c) of
           None \<Rightarrow> Inl (NoSuchRepo (Repo c))
         | Some repo \<Rightarrow>
             (case Get repo (Revision c) of
                None \<Rightarrow> Inl (NoSuchCommitInRepo (Revision c) (Repo c))
              | Some revision \<Rightarrow>
                  (case (if \<not> TestTime (window s) (Repo c) (Timestamp revision)
                         then Inr ([], None)
                         else ComputeBlamelist cache repo (Name c) (Repo c) revision
                                commitsBuf (newTasks s)) of
                     Inl err \<Rightarrow> Inl err
                   | Inr (commits, stealingFrom) \<Rightarrow>
                       (let c1 = c\<lparr>Commits := commits\<rparr>;
                            c2 = (case stealingFrom of
                                    None \<Rightarrow> c1
                                  | Some t \<Rightarrow> c1\<lparr>StealingFromId := Task.Id t\<rparr>)
                        in if IsForceRun c2
                           then Inr (c2\<lparr>Score := CANDIDATE_SCORE_FORCE_RUN
                                                    + Hours (now - JobCreated c2)\<rparr>)
                           else score_candidate s c2 now revision stealingFrom)))))"

section \<open>Matching candidates to bots\<close>

text \<open>
  \<^verbatim>\<open>botsByDim\<close>, a \<^verbatim>\<open>map[string]util.StringSet\<close>, is an association list from
  \<open>key:value\<close> to the set of the ids of the bots that carry it. A dimension that is not
  a key of the map reads as the empty set.
\<close>

type_synonym botsByDim = "(string \<times> string set) list"

fun add_bot :: "string \<Rightarrow> string \<Rightarrow> botsByDim \<Rightarrow> botsByDim" where
  "add_bot d b [] = [(d, {b})]"
| "add_bot d b ((k, botIds) # m) =
     (if k = d then (k, insert b botIds) # m else (k, botIds) # add_bot d b m)"

definition lookup_dim :: "botsByDim \<Rightarrow> string \<Rightarrow> string set" where
  "lookup_dim m d = (case map_of m d of None \<Rightarrow> {} | Some botIds \<Rightarrow> botIds)"

text \<open>The first loop of \<^verbatim>\<open>getCandidatesToSchedule\<close>: index the bots by dimension.\<close>

definition bots_by_dim :: "SwarmingRpcsBotInfo list \<Rightarrow> botsByDim" where
  "bots_by_dim bots =
     fold (\<lambda>b m.
        fold (\<lambda>dim m.
          fold (\<lambda>val m. add_bot (Key dim @ '':'' @ val) (BotId b) m) (Value dim) m)
          (SwarmingRpcsBotInfo.Dimensions b) m)
       bots []"

text \<open>
  The bots that match all dimensions of a task: the set starts empty, the first
  dimension is united with it and the others are intersected.
\<close>

fun matching_bots :: "botsByDim \<Rightarrow> string list \<Rightarrow> string set" where
  "matching_bots m [] = {}"
| "matching_bots m (d # ds) = fold (\<lambda>d matches. matches \<inter> lookup_dim m d) ds ({} \<union> lookup_dim m d)"

text \<open>Remove the chosen bot from every dimension, and the dimensions left without bots.\<close>

definition remove_bot :: "string \<Rightarrow> botsByDim \<Rightarrow> botsByDim" where
  "remove_bot botId m =
     filter (\<lambda>(dim, botIds). botIds \<noteq> {}) (map (\<lambda>(dim, botIds). (dim, botIds - {botId})) m)"

text \<open>
  The second loop of \<^verbatim>\<open>getCandidatesToSchedule\<close>. The bot chosen is the first of the
  matching ids in sorted order, that is, the least one.
\<close>

fun match_tasks :: "botsByDim \<Rightarrow> taskCandidate list \<Rightarrow> taskCandidate list \<Rightarrow> taskCandidate list" where
  "match_tasks m rv [] = rv"
| "match_tasks m rv (c # tasks) =
     (if Score c \<le> 0 then match_tasks m rv tasks
      else
        (let matches = matching_bots m (Dimensions (TaskSpec c))
         in if card matches > 0
            then (let botId = Min matches;
                      m' = remove_bot botId m;
                      rv' = rv @ [c]
                  in if length m' = 0 then rv' else match_tasks m' rv' tasks)
            else match_tasks m rv tasks))"

text \<open>
  Modelled from the spec: \<^verbatim>\<open>taskCandidateSlice\<close> is not part of the sources at hand.
  Candidates are sorted by score, descending; candidates of equal score keep their
  order.
\<close>

definition sort_candidates :: "taskCandidate list \<Rightarrow> taskCandidate list" where
  "sort_candidates cs = sort_key (\<lambda>c. - Score c) cs"

text \<open>\<^verbatim>\<open>func getCandidatesToSchedule(bots, tasks) []*taskCandidate\<close>\<close>

definition getCandidatesToSchedule ::
    "SwarmingRpcsBotInfo list \<Rightarrow> taskCandidate list \<Rightarrow> taskCandidate list" where
  "getCandidatesToSchedule bots tasks = sort_candidates (match_tasks (bots_by_dim bots) [] tasks)"

section \<open>Filtering task candidates\<close>

text \<open>
  Modelled from the spec: \<^verbatim>\<open>taskCandidate.allDepsMet\<close> is not part of the sources at
  hand. Every dependency needs a successful task at the key of the candidate with the
  name of the dependency; the ids and isolated outputs of these tasks are collected.
\<close>

fun allDepsMet_loop ::
    "TaskCache \<Rightarrow> TaskKey \<Rightarrow> string list \<Rightarrow> (string \<times> string) list
      \<Rightarrow> error + (bool \<times> (string \<times> string) list)" where
  "allDepsMet_loop cache key [] rv = Inr (True, rv)"
| "allDepsMet_loop cache key (depName # deps) rv =
     (case GetTasksByKey cache (key\<lparr>Name := depName\<rparr>) of
        Inl err \<Rightarrow> Inl err
      | Inr byKey \<Rightarrow>
          (case find Success byKey of
             None \<Rightarrow> Inr (False, [])
           | Some t \<Rightarrow> allDepsMet_loop cache key deps (rv @ [(Task.Id t, IsolatedOutput t)])))"

definition allDepsMet :: "taskCandidate \<Rightarrow> TaskCache \<Rightarrow> error + (bool \<times> (string \<times> string) list)" where
  "allDepsMet c cache =
     allDepsMet_loop cache (TaskKey.truncate c) (Dependencies (TaskSpec c)) []"

text \<open>
  The second half of the body of the loop of \<^verbatim>\<open>filterTaskCandidates\<close>: the
  dependencies. \<open>None\<close> is the \<^verbatim>\<open>continue\<close> of the source: the candidate is
  rejected.
\<close>

definition filter_dependencies :: "TaskScheduler \<Rightarrow> taskCandidate \<Rightarrow> error + taskCandidate option" where
  "filter_dependencies s c =
     (case allDepsMet c (tCache s) of
        Inl err \<Rightarrow> Inl err
      | Inr (depsMet, idsToHashes) \<Rightarrow>
          if \<not> depsMet then Inr None
          else Inr (Some (c\<lparr>IsolatedHashes := map snd idsToHashes,
                             ParentTaskIds := sort (map fst idsToHashes)\<rparr>)))"

text \<open>
  The body of the loop of \<^verbatim>\<open>filterTaskCandidates\<close> for one candidate. The default
  number of attempts, \<^verbatim>\<open>specs.DEFAULT_TASK_SPEC_MAX_ATTEMPTS\<close>, is a parameter: the
  constant is declared outside the sources at hand.
\<close>

definition filter_candidate ::
    "int \<Rightarrow> TaskScheduler \<Rightarrow> taskCandidate \<Rightarrow> error + taskCandidate option" where
  "filter_candidate DEFAULT_TASK_SPEC_MAX_ATTEMPTS s c =
     (if MatchRule (bl s) (Name c) (Revision c) \<noteq> [] then Inr None
      else
        (case TestCommitHash (window s) (Repo c) (Revision c) of
           Inl err \<Rightarrow> Inl err
         | Inr isIn \<Rightarrow>
             if \<not> isIn then Inr None
             else
               (case GetTasksByKey (tCache s) (TaskKey.truncate c) of
                  Inl err \<Rightarrow> Inl err
                | Inr prevTasks \<Rightarrow>
                    if length prevTasks > 0
                    then
                      (let previous = prevTasks ! (length prevTasks - 1)
                       in if Task.Status previous = TASK_STATUS_PENDING
                             \<or> Task.Status previous = TASK_STATUS_RUNNING
                          then Inr None
                          else if Success previous then Inr None
                          else
                            (let maxAttempts =
                                   (if MaxAttempts (TaskSpec c) = 0
                                    then DEFAULT_TASK_SPEC_MAX_ATTEMPTS
                                    else MaxAttempts (TaskSpec c));
                                 previousAttempt =
                                   (if Task.Attempt previous = 0 \<and> Task.RetryOf previous \<noteq> []
                                    then 1 else Task.Attempt previous)
                             in if previousAttempt \<ge> maxAttempts - 1 then Inr None
                                else filter_dependencies s
                                       (c\<lparr>Attempt := previousAttempt + 1,
                                          RetryOf := Task.Id previous\<rparr>)))
                    else filter_dependencies s c)))"

text \<open>
  \<^verbatim>\<open>candidatesBySpec\<close>, a \<^verbatim>\<open>map[string]map[string][]*taskCandidate\<close>, and the
  insertion of a candidate that passed the filter.
\<close>

type_synonym candidatesBySpec = "string \<rightharpoonup> (string \<rightharpoonup> taskCandidate list)"

definition add_candidate :: "taskCandidate \<Rightarrow> candidatesBySpec \<Rightarrow> candidatesBySpec" where
  "add_candidate c bySpec =
     (let candidates = (case bySpec (Repo c) of None \<Rightarrow> Map.empty | Some m \<Rightarrow> m);
          old = (case candidates (Name c) of None \<Rightarrow> [] | Some cs \<Rightarrow> cs)
      in bySpec(Repo c \<mapsto> candidates(Name c \<mapsto> old @ [c])))"

text \<open>
  The buckets of \<^verbatim>\<open>candidatesBySpec\<close> read as lists: a missing repository or
  name is the empty bucket.
\<close>

definition bucket :: "candidatesBySpec \<Rightarrow> string \<Rightarrow> string \<Rightarrow> taskCandidate list" where
  "bucket bySpec repo name =
     (case bySpec repo of
        None \<Rightarrow> []
      | Some byName \<Rightarrow> (case byName name of None \<Rightarrow> [] | Some cs \<Rightarrow> cs))"

text \<open>
  \<^verbatim>\<open>func (s *TaskScheduler) filterTaskCandidates(preFilterCandidates)\<close>. The source
  ranges over a map; the list \<open>preFilterCandidates\<close> holds its values in the order of
  the iteration.
\<close>

fun filter_loop ::
    "int \<Rightarrow> TaskScheduler \<Rightarrow> taskCandidate list \<Rightarrow> candidatesBySpec \<Rightarrow> error + candidatesBySpec" where
  "filter_loop d s [] bySpec = Inr bySpec"
| "filter_loop d s (c # cs) bySpec =
     (case filter_candidate d s c of
        Inl err \<Rightarrow> Inl err
      | Inr None \<Rightarrow> filter_loop d s cs bySpec
      | Inr (Some c') \<Rightarrow> filter_loop d s cs (add_candidate c' bySpec))"

definition filterTaskCandidates ::
    "int \<Rightarrow> TaskScheduler \<Rightarrow> taskCandidate list \<Rightarrow> error + candidatesBySpec" where
  "filterTaskCandidates DEFAULT_TASK_SPEC_MAX_ATTEMPTS s preFilterCandidates =
     filter_loop DEFAULT_TASK_SPEC_MAX_ATTEMPTS s preFilterCandidates Map.empty"

section \<open>Cancelling a job\<close>

text \<open>
  Modelled from the spec: the job store and the job cache are not part of the sources
  at hand. \<open>GetJobMaybeExpired\<close> reads the cache and falls back on the store;
  \<open>PutJob\<close> writes the store; \<open>Update\<close> refreshes the cache from the store.
\<close>

definition GetJobMaybeExpired :: "TaskScheduler \<Rightarrow> string \<Rightarrow> error + Job" where
  "GetJobMaybeExpired s jid =
     (case cached_jobs (jCache s) jid of
        Some j \<Rightarrow> Inr j
      | None \<Rightarrow>
          (case stored_jobs (db s) jid of
             Some j \<Rightarrow> Inr j
           | None \<Rightarrow> Inl (ExternalError ''unknown job'')))"

definition PutJob :: "TaskScheduler \<Rightarrow> Job \<Rightarrow> TaskScheduler \<times> error option" where
  "PutJob s j =
     (case put_error (db s) of
        Some err \<Rightarrow> (s, Some err)
      | None \<Rightarrow> (s\<lparr>db := (db s)\<lparr>stored_jobs := (stored_jobs (db s))(Job.Id j \<mapsto> j)\<rparr>\<rparr>, None))"

definition Update :: "TaskScheduler \<Rightarrow> TaskScheduler \<times> error option" where
  "Update s =
     (case update_error (jCache s) of
        Some err \<Rightarrow> (s, Some err)
      | None \<Rightarrow> (s\<lparr>jCache := (jCache s)\<lparr>cached_jobs := stored_jobs (db s)\<rparr>\<rparr>, None))"

text \<open>
  \<^verbatim>\<open>func (s *TaskScheduler) jobFinished(j *db.Job) error\<close>; \<open>now\<close> is the value
  of \<^verbatim>\<open>time.Now()\<close>.
\<close>

definition jobFinished :: "int \<Rightarrow> Job \<Rightarrow> error + Job" where
  "jobFinished now j =
     (if \<not> Done j then Inl (JobFinishedNotDone (Job.Status j))
      else Inr (j\<lparr>Finished := now\<rparr>))"

text \<open>
  \<^verbatim>\<open>func (s *TaskScheduler) CancelJob(id string) (*db.Job, error)\<close>. The result is
  the pair that the source returns, with the scheduler after the call.
\<close>

definition CancelJob ::
    "TaskScheduler \<Rightarrow> int \<Rightarrow> string \<Rightarrow> (Job option \<times> error option) \<times> TaskScheduler" where
  "CancelJob s now jid =
     (case GetJobMaybeExpired s jid of
        Inl err \<Rightarrow> ((None, Some err), s)
      | Inr j \<Rightarrow>
          if Done j then ((None, Some (JobAlreadyFinished jid (Job.Status j))), s)
          else
            (let j1 = j\<lparr>Job.Status := JOB_STATUS_CANCELED\<rparr>
             in case jobFinished now j1 of
                  Inl err \<Rightarrow> ((None, Some err), s)
                | Inr j2 \<Rightarrow>
                    (case PutJob s j2 of
                       (s1, Some err) \<Rightarrow> ((None, Some err), s1)
                     | (s1, None) \<Rightarrow>
                         (case Update s1 of (s2, err) \<Rightarrow> ((Some j2, err), s2)))))"

section \<open>Scenarios\<close>

text \<open>
  A linear history of \<open>n + 1\<close> commits: commit \<open>k\<close> has commit \<open>k - 1\<close> as its only
  parent, and its hash is \<open>k + 1\<close> times the letter \<open>c\<close>.
\<close>

definition commit_hash :: "nat \<Rightarrow> string" where
  "commit_hash k = replicate (Suc k) (CHR ''c'')"

fun linear_history :: "nat \<Rightarrow> commit" where
  "linear_history 0 = Commit (commit_hash 0) 0 []"
| "linear_history (Suc k) = Commit (commit_hash (Suc k)) (int (Suc k)) [linear_history k]"

text \<open>A task cache without tasks.\<close>

definition empty_cache :: TaskCache where
  "empty_cache = \<lparr>GetTaskForCommit = (\<lambda>repoName hash taskName. Inr None),
                  GetTasksByKey = (\<lambda>key. Inr [])\<rparr>"

text \<open>
  The first scenario of the specification: a repository \<open>repo\<close> with the linear
  history \<open>c1 \<dots> c5\<close>, one task spec \<open>S\<close>, no prior tasks, no time decay, and a
  window that holds every commit.
\<close>

definition commit_c1 :: commit where "commit_c1 = Commit ''c1'' 1 []"
definition commit_c2 :: commit where "commit_c2 = Commit ''c2'' 2 [commit_c1]"
definition commit_c3 :: commit where "commit_c3 = Commit ''c3'' 3 [commit_c2]"
definition commit_c4 :: commit where "commit_c4 = Commit ''c4'' 4 [commit_c3]"
definition commit_c5 :: commit where "commit_c5 = Commit ''c5'' 5 [commit_c4]"

definition scenario_repo :: Graph where
  "scenario_repo = [commit_c1, commit_c2, commit_c3, commit_c4, commit_c5]"

definition scenario_scheduler :: TaskScheduler where
  "scenario_scheduler =
     \<lparr>bl = \<lparr>MatchRule = (\<lambda>name revision. [])\<rparr>,
      db = \<lparr>stored_jobs = Map.empty, put_error = None\<rparr>,
      jCache = \<lparr>cached_jobs = Map.empty, update_error = None\<rparr>,
      newTasks = Map.empty,
      repos = [''repo'' \<mapsto> scenario_repo],
      tCache = empty_cache,
      timeDecayAmt24Hr = 1,
      window = \<lparr>TestTime = (\<lambda>repo t. True), TestCommitHash = (\<lambda>repo hash. Inr True)\<rparr>\<rparr>"

definition scenario_candidate :: taskCandidate where
  "scenario_candidate =
     \<lparr>Repo = ''repo'', Revision = ''c5'', IsTryJob = False, Name = ''S'', ForcedJobId = [],
      Attempt = 0, Commits = [], IsolatedHashes = [], JobCreated = 0, ParentTaskIds = [],
      RetryOf = [], Score = 0, StealingFromId = [],
      TaskSpec = \<lparr>Dependencies = [], Dimensions = [''pool:Skia''], MaxAttempts = 0\<rparr>\<rparr>"

definition scenario_bots :: "SwarmingRpcsBotInfo list" where
  "scenario_bots = [\<lparr>BotId = ''bot1'', Dimensions = [\<lparr>Key = ''pool'', Value = [''Skia'']\<rparr>]\<rparr>]"

text \<open>
  The second scenario of the specification: the task \<open>t1\<close> of the first scenario ran
  at \<open>c5\<close> with the blamelist \<open>c5 \<dots> c1\<close> and failed.
\<close>

definition failed_task :: Task where
  "failed_task =
     \<lparr>Repo = ''repo'', Revision = ''c5'', IsTryJob = False, Name = ''S'', ForcedJobId = [],
      Id = ''t1'', Created = 10, Status = TASK_STATUS_FAILURE, Attempt = 0, RetryOf = [],
      Commits = [''c5'', ''c4'', ''c3'', ''c2'', ''c1''], IsolatedOutput = []\<rparr>"

definition retry_cache :: TaskCache where
  "retry_cache =
     \<lparr>GetTaskForCommit = (\<lambda>repoName hash taskName.
         if repoName = ''repo'' \<and> taskName = ''S'' \<and> hash \<in> set (Task.Commits failed_task)
         then Inr (Some failed_task) else Inr None),
      GetTasksByKey = (\<lambda>key.
         if key = TaskKey.truncate failed_task then Inr [failed_task] else Inr [])\<rparr>"

definition retry_scheduler :: TaskScheduler where
  "retry_scheduler = scenario_scheduler\<lparr>tCache := retry_cache\<rparr>"

definition retry_candidate :: taskCandidate where
  "retry_candidate = scenario_candidate\<lparr>Attempt := 1, RetryOf := ''t1''\<rparr>"

text \<open>
  A task \<open>t0\<close> that succeeded, followed by the failed task \<open>t1\<close> for the same key.
\<close>

definition succeeded_task :: Task where
  "succeeded_task = failed_task\<lparr>Task.Id := ''t0'', Task.Created := 9,
                                Task.Status := TASK_STATUS_SUCCESS\<rparr>"

definition success_then_failure_cache :: TaskCache where
  "success_then_failure_cache =
     \<lparr>GetTaskForCommit = (\<lambda>repoName hash taskName. Inr None),
      GetTasksByKey = (\<lambda>key.
         if key = TaskKey.truncate failed_task then Inr [succeeded_task, failed_task]
         else Inr [])\<rparr>"

definition success_then_failure_scheduler :: TaskScheduler where
  "success_then_failure_scheduler = scenario_scheduler\<lparr>tCache := success_then_failure_cache\<rparr>"

text \<open>
  The failed task \<open>t1\<close> followed by its retry \<open>t2\<close>, which succeeded; and a
  candidate for another task spec, \<open>S2\<close>, at the same commit.
\<close>

definition retried_task :: Task where
  "retried_task = failed_task\<lparr>Task.Id := ''t2'', Task.Created := 11,
                              Task.Status := TASK_STATUS_SUCCESS, Task.Attempt := 1,
                              Task.RetryOf := ''t1''\<rparr>"

definition failure_then_success_cache :: TaskCache where
  "failure_then_success_cache =
     \<lparr>GetTaskForCommit = (\<lambda>repoName hash taskName. Inr None),
      GetTasksByKey = (\<lambda>key.
         if key = TaskKey.truncate failed_task then Inr [failed_task, retried_task]
         else Inr [])\<rparr>"

definition failure_then_success_scheduler :: TaskScheduler where
  "failure_then_success_scheduler = scenario_scheduler\<lparr>tCache := failure_then_success_cache\<rparr>"

definition other_candidate :: taskCandidate where
  "other_candidate = scenario_candidate\<lparr>Name := ''S2''\<rparr>"

text \<open>
  A window that every commit has left, and a force run of the job \<open>j1\<close> at \<open>c5\<close>.
\<close>

definition expired_scheduler :: TaskScheduler where
  "expired_scheduler =
     scenario_scheduler\<lparr>window := \<lparr>TestTime = (\<lambda>repo t. False),
                                    TestCommitHash = (\<lambda>repo hash. Inr False)\<rparr>\<rparr>"

definition force_candidate :: taskCandidate where
  "force_candidate = scenario_candidate\<lparr>ForcedJobId := ''j1''\<rparr>"

text \<open>A scheduler whose job store and job cache hold the unfinished job \<open>j1\<close>.\<close>

definition running_job :: Job where
  "running_job = \<lparr>Job.Id = ''j1'', Job.Created = 1, Job.Status = JOB_STATUS_IN_PROGRESS,
                  Finished = 0\<rparr>"

definition job_scheduler :: TaskScheduler where
  "job_scheduler =
     scenario_scheduler\<lparr>db := \<lparr>stored_jobs = [''j1'' \<mapsto> running_job], put_error = None\<rparr>,
                        jCache := \<lparr>cached_jobs = [''j1'' \<mapsto> running_job], update_error = None\<rparr>\<rparr>"

section \<open>Properties of the scoring functions\<close>

lemma testedness_spec_T: "0 \<le> n \<Longrightarrow> testedness n = spec_T (nat n)"
proof -
  assume n: "0 \<le> n"
  obtain k where k: "n = int k" using n by (metis nonneg_int_cases)
  show ?thesis
  proof (cases k rule: spec_T.cases)
    case 1
    then show ?thesis using k by (simp add: testedness_def)
  next
    case 2
    then show ?thesis using k by (simp add: testedness_def)
  next
    case (3 j)
    then have "nat n = Suc (Suc j)" using k by simp
    then show ?thesis using 3 k by (simp add: testedness_def)
  qed
qed

lemma testedness_ge_one: "1 \<le> n \<Longrightarrow> 1 \<le> testedness n"
  by (simp add: testedness_def)

lemma testedness_le_two: "testedness n \<le> 2"
  by (simp add: testedness_def)

text \<open>
  C2. On the inputs \<open>m = 0\<close> or \<open>0 < n \<le> m\<close> the function \<open>testednessIncrease\<close> of
  the source returns the value of the reference definition of the specification
  (\<open>-1\<close> for \<open>n \<le> 0\<close>, \<open>T(n) + n\<close> for \<open>m = 0\<close>, \<open>0\<close> for \<open>n = m\<close>,
  \<open>T(n) + T(m - n) - T(m)\<close> otherwise).
\<close>

theorem testednessIncrease_refines_spec:
  assumes "m = 0 \<or> (0 < n \<and> n \<le> m)"
  shows "testednessIncrease n m = spec_testedness_increase n m"
proof (cases "n \<le> 0 \<or> m < 0")
  case True
  then show ?thesis
    by (simp add: testednessIncrease_def spec_testedness_increase_def)
next
  case False
  then have n: "0 < n" and m: "0 \<le> m" by auto
  show ?thesis
  proof (cases "m = 0")
    case True
    then show ?thesis using n
      by (simp add: testednessIncrease_def spec_testedness_increase_def testedness_spec_T)
  next
    case False
    then have le: "n \<le> m" using assms by simp
    have "testedness (m - n) = spec_T (nat (m - n))"
      using le by (simp add: testedness_spec_T)
    moreover have "testedness n = spec_T (nat n)" using n by (simp add: testedness_spec_T)
    moreover have "testedness m = spec_T (nat m)" using m by (simp add: testedness_spec_T)
    ultimately show ?thesis
      using n m by (simp add: testednessIncrease_def spec_testedness_increase_def)
  qed
qed

theorem testednessIncrease_refines_spec_witness:
  "((5::int) = 0 \<or> (0 < (2::int) \<and> (2::int) \<le> 5))
   \<and> testednessIncrease 2 5 = spec_testedness_increase 2 5
   \<and> testednessIncrease 2 5 = 41 / 30"
  using testednessIncrease_refines_spec [of 5 2]
  by (simp add: testednessIncrease_def testedness_def)

text \<open>
  C6 (bisect law). For \<open>0 < n < m\<close> the testedness increase of a bisect is not
  negative.
\<close>

theorem testednessIncrease_bisect_nonneg:
  assumes "0 < n" and "n < m"
  shows "0 \<le> testednessIncrease n m"
proof -
  have a: "1 \<le> testedness n" using assms by (simp add: testedness_ge_one)
  have b: "1 \<le> testedness (m - n)" using assms by (simp add: testedness_ge_one)
  have c: "testedness m \<le> 2" by (rule testedness_le_two)
  have "testednessIncrease n m = testedness n + testedness (m - n) - testedness m"
    using assms by (simp add: testednessIncrease_def)
  then show ?thesis using a b c by linarith
qed

theorem testednessIncrease_bisect_nonneg_witness:
  "(0::int) < 2 \<and> (2::int) < 5 \<and> 0 \<le> testednessIncrease 2 5"
  using testednessIncrease_bisect_nonneg [of 2 5] by simp

section \<open>Properties of the bot matcher\<close>

lemma match_tasks_selected:
  "c \<in> set (match_tasks m rv tasks) \<Longrightarrow>
     c \<in> set rv \<or> (c \<in> set tasks \<and> 0 < Score c \<and> Dimensions (TaskSpec c) \<noteq> [])"
proof (induction tasks arbitrary: m rv)
  case Nil
  then show ?case by simp
next
  case (Cons t tasks)
  show ?case
  proof (cases "Score t \<le> 0")
    case True
    then have "c \<in> set (match_tasks m rv tasks)" using Cons.prems by simp
    then show ?thesis using Cons.IH by fastforce
  next
    case pos: False
    show ?thesis
    proof (cases "card (matching_bots m (Dimensions (TaskSpec t))) > 0")
      case False
      then have "c \<in> set (match_tasks m rv tasks)" using Cons.prems pos by simp
      then show ?thesis using Cons.IH by fastforce
    next
      case True
      then have dims: "Dimensions (TaskSpec t) \<noteq> []" by (cases "Dimensions (TaskSpec t)") auto
      let ?m' = "remove_bot (Min (matching_bots m (Dimensions (TaskSpec t)))) m"
      show ?thesis
      proof (cases "length ?m' = 0")
        case True
        then have "c \<in> set (rv @ [t])" using Cons.prems pos \<open>card _ > 0\<close> by (simp add: Let_def)
        then show ?thesis using pos dims by auto
      next
        case False
        then have "c \<in> set (match_tasks ?m' (rv @ [t]) tasks)"
          using Cons.prems pos \<open>card _ > 0\<close> by (simp add: Let_def)
        then have "c \<in> set (rv @ [t]) \<or> (c \<in> set tasks \<and> 0 < Score c \<and> Dimensions (TaskSpec c) \<noteq> [])"
          by (rule Cons.IH)
        then show ?thesis using pos dims by auto
      qed
    qed
  qed
qed

lemma getCandidatesToSchedule_selected:
  "c \<in> set (getCandidatesToSchedule bots tasks) \<Longrightarrow>
     c \<in> set tasks \<and> 0 < Score c \<and> Dimensions (TaskSpec c) \<noteq> []"
  using match_tasks_selected [of c "bots_by_dim bots" "[]" tasks]
  by (simp add: getCandidatesToSchedule_def sort_candidates_def)

lemma score_not_selected: "Score c \<le> 0 \<Longrightarrow> c \<notin> set (getCandidatesToSchedule bots tasks)"
  using getCandidatesToSchedule_selected [of c bots tasks] by auto

text \<open>
  C10. A candidate whose task spec has an empty list of dimensions is never selected,
  whatever the bots and the queue are: the set of matching bots starts empty and no
  dimension is united with it.
\<close>

theorem getCandidatesToSchedule_no_dimensions:
  assumes "Dimensions (TaskSpec c) = []"
  shows "c \<notin> set (getCandidatesToSchedule bots tasks)"
  using getCandidatesToSchedule_selected [of c bots tasks] assms by auto

theorem getCandidatesToSchedule_no_dimensions_witness:
  "Dimensions (TaskSpec (scenario_candidate\<lparr>Score := 2, TaskSpec := \<lparr>Dependencies = [], Dimensions = [], MaxAttempts = 0\<rparr>\<rparr>)) = []
   \<and> scenario_candidate\<lparr>Score := 2, TaskSpec := \<lparr>Dependencies = [], Dimensions = [], MaxAttempts = 0\<rparr>\<rparr>
       \<notin> set (getCandidatesToSchedule scenario_bots
            [scenario_candidate\<lparr>Score := 2, TaskSpec := \<lparr>Dependencies = [], Dimensions = [], MaxAttempts = 0\<rparr>\<rparr>])
   \<and> getCandidatesToSchedule scenario_bots [scenario_candidate\<lparr>Score := 2\<rparr>] = [scenario_candidate\<lparr>Score := 2\<rparr>]"
  using getCandidatesToSchedule_no_dimensions
    [of "scenario_candidate\<lparr>Score := 2, TaskSpec := \<lparr>Dependencies = [], Dimensions = [], MaxAttempts = 0\<rparr>\<rparr>"
        scenario_bots
        "[scenario_candidate\<lparr>Score := 2, TaskSpec := \<lparr>Dependencies = [], Dimensions = [], MaxAttempts = 0\<rparr>\<rparr>]"]
  by (simp add: getCandidatesToSchedule_def sort_candidates_def bots_by_dim_def lookup_dim_def
        remove_bot_def scenario_bots_def scenario_candidate_def)

section \<open>Properties of blamelists\<close>

lemma recurse_invariant:
  fixes f :: "commit \<Rightarrow> 's \<Rightarrow> 's \<times> bool \<times> error option"
  shows "(\<And>c s. I s \<Longrightarrow> I (fst (f c s))) \<Longrightarrow> I (snd vs) \<Longrightarrow> I (snd (fst (recurse f c vs)))"
    and "(\<And>c s. I s \<Longrightarrow> I (fst (f c s))) \<Longrightarrow> I (snd vs) \<Longrightarrow> I (snd (fst (recurse_parents f ps vs)))"
proof (induction f c vs and f ps vs rule: recurse_recurse_parents.induct)
  case (1 f h t ps visited s)
  obtain s' keepGoing err where r: "f (Commit h t ps) s = (s', keepGoing, err)"
    by (cases "f (Commit h t ps) s") auto
  have s': "I s'" using "1.prems" r by (metis fst_conv snd_conv)
  show ?case
  proof (cases "err = None \<and> keepGoing")
    case True
    then have "I (snd (fst (recurse_parents f ps (h # visited, s'))))"
      using "1.IH" [of s' "(keepGoing, err)" keepGoing err] r s' "1.prems"(1) by simp
    then show ?thesis using r True by simp
  next
    case False
    then show ?thesis using r s' by (cases err) auto
  qed
next
  case (2 f vs)
  then show ?case by simp
next
  case (3 f p ps visited s)
  show ?case
  proof (cases "Hash p \<in> set visited")
    case True
    then show ?thesis using 3 by simp
  next
    case False
    obtain vs' err where r: "recurse f p (visited, s) = (vs', err)"
      by (cases "recurse f p (visited, s)") auto
    have vs': "I (snd vs')" using "3.IH"(2) [OF False "3.prems"] r by simp
    show ?thesis
    proof (cases err)
      case None
      then show ?thesis using "3.IH"(3) [OF False r [symmetric] None "3.prems"(1) vs'] r False
        by simp
    next
      case (Some e)
      then show ?thesis using r False vs' by simp
    qed
  qed
qed

lemma Get_Hash: "Get repo h = Some c \<Longrightarrow> Hash c = h"
  by (auto simp: Get_def find_Some_iff)

lemma steal_all_hashes:
  "steal_all repo cs buf = (buf', None) \<Longrightarrow> map Hash buf' = map Hash buf @ cs"
proof (induction cs arbitrary: buf)
  case Nil
  then show ?case by simp
next
  case (Cons c cs)
  then show ?case by (auto split: option.splits dest: Get_Hash)
qed

lemma steal_all_error:
  "steal_all repo cs buf = (buf', Some e) \<Longrightarrow> e \<noteq> ERR_BLAMELIST_DONE"
  by (induction cs arbitrary: buf) (auto split: option.splits)

lemma callback_keeps_revision:
  assumes "Hash revision \<in> Hash ` set (fst s)"
  shows "Hash revision \<in> Hash ` set (fst (fst (blamelist_callback cache repo taskName repoName revision nt c s)))"
proof -
  obtain buf sf where s: "s = (buf, sf)" by (cases s)
  have ne: "buf \<noteq> []" using assms s by auto
  show ?thesis using assms ne unfolding s blamelist_callback_def add_commit_def
    by (auto simp: Let_def split: sum.splits option.splits)
qed

lemma first_callback:
  assumes inv: "\<And>t. GetTaskForCommit cache repoName (Hash revision) taskName = Inr (Some t) \<Longrightarrow>
                  Task.Commits t \<noteq> [] \<Longrightarrow> Revision t \<in> set (Task.Commits t)"
    and r: "blamelist_callback cache repo taskName repoName revision nt revision ([], None) = (s', keep, err)"
  shows "(keep \<longrightarrow> Hash revision \<in> Hash ` set (fst s'))
       \<and> ((err = None \<or> err = Some ERR_BLAMELIST_DONE) \<longrightarrow>
            (fst s' = [] \<or> Hash revision \<in> Hash ` set (fst s')))"
proof (cases "GetTaskForCommit cache repoName (Hash revision) taskName")
  case (Inl e)
  then show ?thesis using r by (auto simp: blamelist_callback_def)
next
  case (Inr prev)
  show ?thesis
  proof (cases prev)
    case None
    then show ?thesis using r Inr
      by (auto simp: blamelist_callback_def add_commit_def MAX_BLAMELIST_COMMITS_def Let_def
               split: if_splits)
  next
    case (Some p)
    show ?thesis
    proof (cases "Revision p = Hash revision")
      case False
      then show ?thesis using r Inr Some
        by (auto simp: blamelist_callback_def add_commit_def MAX_BLAMELIST_COMMITS_def Let_def
               split: if_splits)
    next
      case True
      obtain buf' e where st: "steal_all repo (Task.Commits p) [] = (buf', e)"
        by (cases "steal_all repo (Task.Commits p) []") auto
      show ?thesis
      proof (cases e)
        case (Some err')
        then have "err' \<noteq> ERR_BLAMELIST_DONE" using st steal_all_error by blast
        then show ?thesis using r Inr \<open>prev = Some p\<close> True st Some
          by (auto simp: blamelist_callback_def MAX_BLAMELIST_COMMITS_def Let_def)
      next
        case None
        have h: "map Hash buf' = Task.Commits p" using steal_all_hashes st None by fastforce
        have s': "s' = (buf', Some p)" "keep = False" using r Inr \<open>prev = Some p\<close> True st None
          by (auto simp: blamelist_callback_def MAX_BLAMELIST_COMMITS_def Let_def)
        have "buf' \<noteq> [] \<Longrightarrow> Hash revision \<in> Hash ` set buf'"
        proof -
          assume "buf' \<noteq> []"
          then have "Task.Commits p \<noteq> []" using h by auto
          then have "Revision p \<in> set (Task.Commits p)" using inv Inr \<open>prev = Some p\<close> by simp
          then show ?thesis using True h by (metis list.set_map)
        qed
        then show ?thesis using s' by auto
      qed
    qed
  qed
qed

text \<open>
  C4 (self-inclusion). If every task that the cache returns has its own revision in its
  blamelist whenever that blamelist is not empty, then the list of commits that
  \<^verbatim>\<open>ComputeBlamelist\<close> returns contains the requested revision, unless it is empty.
\<close>

theorem ComputeBlamelist_self_inclusion:
  assumes inv: "\<forall>r h n t. GetTaskForCommit cache r h n = Inr (Some t) \<longrightarrow>
                  Task.Commits t \<noteq> [] \<longrightarrow> Revision t \<in> set (Task.Commits t)"
    and res: "ComputeBlamelist cache repo taskName repoName revision commitsBuf nt = Inr (commits, stealFrom)"
    and ne: "commits \<noteq> []"
  shows "Hash revision \<in> set commits"
proof -
  let ?f = "blamelist_callback cache repo taskName repoName revision nt"
  obtain h t ps where rev: "revision = Commit h t ps" by (cases revision)
  obtain s' keep err where r: "?f revision ([], None) = (s', keep, err)"
    by (cases "?f revision ([], None)") auto
  have fc: "(keep \<longrightarrow> Hash revision \<in> Hash ` set (fst s'))
       \<and> ((err = None \<or> err = Some ERR_BLAMELIST_DONE) \<longrightarrow>
            (fst s' = [] \<or> Hash revision \<in> Hash ` set (fst s')))"
    using first_callback [OF _ r] inv by blast
  obtain vis buf sf e where w: "recurse ?f revision ([], ([], None)) = ((vis, (buf, sf)), e)"
    by (cases "recurse ?f revision ([], ([], None))") auto
  have final: "(e = None \<or> e = Some ERR_BLAMELIST_DONE) \<longrightarrow> (buf = [] \<or> Hash revision \<in> Hash ` set buf)"
  proof (cases "keep \<and> err = None")
    case False
    then have "buf = fst s'" "e = err" using w r unfolding rev by (auto split: option.splits if_splits)
    then show ?thesis using fc by simp
  next
    case True
    then have I: "Hash revision \<in> Hash ` set (fst s')" using fc by simp
    have "recurse ?f revision ([], ([], None)) = recurse_parents ?f ps ([h], s')"
      using True r unfolding rev by simp
    then have eq: "recurse_parents ?f ps ([h], s') = ((vis, (buf, sf)), e)" using w by simp
    have "Hash revision \<in> Hash ` set (fst (snd (fst (recurse_parents ?f ps ([h], s')))))"
      using recurse_invariant(2) [of "\<lambda>s. Hash revision \<in> Hash ` set (fst s)" ?f "([h], s')" ps]
        callback_keeps_revision I by simp
    then show ?thesis unfolding eq by simp
  qed
  have "commits = map Hash buf \<and> (e = None \<or> e = Some ERR_BLAMELIST_DONE)"
    using res w by (auto simp: ComputeBlamelist_def Recurse_def split: option.splits if_splits)
  then show ?thesis using final ne by auto
qed

lemmas scen = scenario_scheduler_def scenario_candidate_def scenario_repo_def commit_c1_def
  commit_c2_def commit_c3_def commit_c4_def commit_c5_def empty_cache_def scenario_bots_def

theorem ComputeBlamelist_self_inclusion_witness:
  "ComputeBlamelist retry_cache scenario_repo ''S'' ''repo'' commit_c5 [] Map.empty
     = Inr ([''c5'', ''c4'', ''c3'', ''c2'', ''c1''], Some failed_task)
   \<and> [''c5'', ''c4'', ''c3'', ''c2'', ''c1''] \<noteq> []
   \<and> Hash commit_c5 \<in> set [''c5'', ''c4'', ''c3'', ''c2'', ''c1'']"
proof -
  have inv: "\<forall>r h n t. GetTaskForCommit retry_cache r h n = Inr (Some t) \<longrightarrow>
                  Task.Commits t \<noteq> [] \<longrightarrow> Revision t \<in> set (Task.Commits t)"
    by (simp add: retry_cache_def failed_task_def)
  have res: "ComputeBlamelist retry_cache scenario_repo ''S'' ''repo'' commit_c5 [] Map.empty
     = Inr ([''c5'', ''c4'', ''c3'', ''c2'', ''c1''], Some failed_task)"
    by (simp add: ComputeBlamelist_def Recurse_def blamelist_callback_def retry_cache_def
          failed_task_def scen MAX_BLAMELIST_COMMITS_def Get_def)
  have ne: "[''c5'', ''c4'', ''c3'', ''c2'', ''c1''] \<noteq> []" by simp
  show ?thesis using ComputeBlamelist_self_inclusion [OF inv res ne] res by simp
qed

lemma commit_hash_inj: "commit_hash j = commit_hash k \<Longrightarrow> j = k"
proof -
  assume "commit_hash j = commit_hash k"
  then have "length (commit_hash j) = length (commit_hash k)" by simp
  then show ?thesis by (simp add: commit_hash_def)
qed

lemma Hash_linear_history: "Hash (linear_history k) = commit_hash k"
  by (cases k) simp_all

lemma callback_fresh:
  "length buf \<le> MAX_BLAMELIST_COMMITS \<Longrightarrow>
     blamelist_callback empty_cache repo taskName repoName revision Map.empty commit (buf, None)
       = ((buf @ [commit], None), True, None)"
  by (simp add: blamelist_callback_def add_commit_def empty_cache_def)

lemma callback_overrun:
  "MAX_BLAMELIST_COMMITS < length buf \<Longrightarrow>
     blamelist_callback empty_cache repo taskName repoName revision Map.empty commit (buf, None)
       = (([revision], None), False, Some ERR_BLAMELIST_DONE)"
  by (simp add: blamelist_callback_def empty_cache_def)

lemma recurse_linear_history:
  "length buf + Suc k \<le> Suc MAX_BLAMELIST_COMMITS \<Longrightarrow>
   \<forall>j\<le>k. commit_hash j \<notin> set visited \<Longrightarrow>
     recurse (blamelist_callback empty_cache repo taskName repoName revision Map.empty)
        (linear_history k) (visited, (buf, None))
       = ((map commit_hash [0..<Suc k] @ visited,
           (buf @ map linear_history (rev [0..<Suc k]), None)), None)"
proof (induction k arbitrary: buf visited)
  case 0
  then show ?case by (simp add: callback_fresh)
next
  case (Suc k)
  let ?f = "blamelist_callback empty_cache repo taskName repoName revision Map.empty"
  let ?c = "linear_history (Suc k)"
  have len: "length buf \<le> MAX_BLAMELIST_COMMITS" using Suc.prems(1) by simp
  have nv: "Hash (linear_history k) \<notin> set (commit_hash (Suc k) # visited)"
    using Suc.prems(2) commit_hash_inj [of k "Suc k"] by (auto simp: Hash_linear_history)
  have vis: "\<forall>j\<le>k. commit_hash j \<notin> set (commit_hash (Suc k) # visited)"
    using Suc.prems(2) commit_hash_inj by fastforce
  have IH: "recurse ?f (linear_history k) (commit_hash (Suc k) # visited, (buf @ [?c], None))
       = ((map commit_hash [0..<Suc k] @ commit_hash (Suc k) # visited,
           ((buf @ [?c]) @ map linear_history (rev [0..<Suc k]), None)), None)"
    using Suc.IH [of "buf @ [?c]" "commit_hash (Suc k) # visited"] Suc.prems(1) vis by simp
  have "recurse ?f ?c (visited, (buf, None))
          = recurse_parents ?f [linear_history k] (commit_hash (Suc k) # visited, (buf @ [?c], None))"
    using callback_fresh [OF len] by simp
  also have "\<dots> = ((map commit_hash [0..<Suc k] @ commit_hash (Suc k) # visited,
           ((buf @ [?c]) @ map linear_history (rev [0..<Suc k]), None)), None)"
    using nv IH by simp
  finally show ?case by simp
qed

lemma recurse_linear_history_overrun:
  "Suc MAX_BLAMELIST_COMMITS < length buf + Suc k \<Longrightarrow>
   \<forall>j\<le>k. commit_hash j \<notin> set visited \<Longrightarrow>
     \<exists>visited'. recurse (blamelist_callback empty_cache repo taskName repoName revision Map.empty)
        (linear_history k) (visited, (buf, None))
       = ((visited', ([revision], None)), Some ERR_BLAMELIST_DONE)"
proof (induction k arbitrary: buf visited)
  case 0
  then have "MAX_BLAMELIST_COMMITS < length buf" by simp
  then show ?case by (simp add: callback_overrun)
next
  case (Suc k)
  let ?f = "blamelist_callback empty_cache repo taskName repoName revision Map.empty"
  let ?c = "linear_history (Suc k)"
  show ?case
  proof (cases "MAX_BLAMELIST_COMMITS < length buf")
    case True
    then show ?thesis by (simp add: callback_overrun)
  next
    case False
    then have len: "length buf \<le> MAX_BLAMELIST_COMMITS" by simp
    have nv: "Hash (linear_history k) \<notin> set (commit_hash (Suc k) # visited)"
      using Suc.prems(2) commit_hash_inj [of k "Suc k"] by (auto simp: Hash_linear_history)
    have vis: "\<forall>j\<le>k. commit_hash j \<notin> set (commit_hash (Suc k) # visited)"
      using Suc.prems(2) commit_hash_inj by fastforce
    obtain visited' where IH:
      "recurse ?f (linear_history k) (commit_hash (Suc k) # visited, (buf @ [?c], None))
         = ((visited', ([revision], None)), Some ERR_BLAMELIST_DONE)"
      using Suc.IH [of "buf @ [?c]" "commit_hash (Suc k) # visited"] Suc.prems(1) vis by auto
    have "recurse ?f ?c (visited, (buf, None))
            = recurse_parents ?f [linear_history k] (commit_hash (Suc k) # visited, (buf @ [?c], None))"
      using callback_fresh [OF len] by simp
    also have "\<dots> = ((visited', ([revision], None)), Some ERR_BLAMELIST_DONE)"
      using nv IH by simp
    finally show ?thesis by blast
  qed
qed

text \<open>
  C3 (size bound). The bound of \<open>MAX_BLAMELIST_COMMITS = 500\<close> commits does not hold:
  the callback tests the length of the buffer before it adds a commit, and with
  \<open>>\<close>, so a buffer of 500 commits still grows. On a linear history of 501 commits
  without prior tasks \<^verbatim>\<open>ComputeBlamelist\<close> returns all 501 commits; only with 502
  commits does it return the single revision.
\<close>

theorem ComputeBlamelist_exceeds_max:
  "ComputeBlamelist empty_cache [] ''S'' ''repo'' (linear_history 500) [] Map.empty
     = Inr (map commit_hash (rev [0..<501]), None)
   \<and> length (map commit_hash (rev [0..<501])) = 501
   \<and> MAX_BLAMELIST_COMMITS < length (map commit_hash (rev [0..<501]))
   \<and> ComputeBlamelist empty_cache [] ''S'' ''repo'' (linear_history 501) [] Map.empty
     = Inr ([commit_hash 501], None)"
proof -
  have a: "recurse (blamelist_callback empty_cache [] ''S'' ''repo'' (linear_history 500) Map.empty)
        (linear_history 500) ([], ([], None))
       = ((map commit_hash [0..<Suc 500] @ [],
           ([] @ map linear_history (rev [0..<Suc 500]), None)), None)"
    by (rule recurse_linear_history) (simp_all add: MAX_BLAMELIST_COMMITS_def)
  have b: "\<exists>visited'. recurse (blamelist_callback empty_cache [] ''S'' ''repo'' (linear_history 501) Map.empty)
        (linear_history 501) ([], ([], None))
       = ((visited', ([linear_history 501], None)), Some ERR_BLAMELIST_DONE)"
    by (rule recurse_linear_history_overrun) (simp_all add: MAX_BLAMELIST_COMMITS_def)
  have c: "map Hash (map linear_history (rev [0..<Suc 500])) = map commit_hash (rev [0..<501])"
    by (simp add: Hash_linear_history comp_def del: upt_Suc)
  show ?thesis using a b c
    by (auto simp: ComputeBlamelist_def Recurse_def Hash_linear_history MAX_BLAMELIST_COMMITS_def
          simp del: upt_Suc)
qed

section \<open>Properties of candidate processing\<close>

lemma timeDecay24Hr_nonneg: "0 \<le> timeDecay24Hr d e"
  by (simp add: timeDecay24Hr_def)

lemma decay_of_nonneg: "0 \<le> decay_of s now commit"
  by (simp add: decay_of_def timeDecay24Hr_nonneg)

lemma timeDecayForCommit_decay_of: "timeDecayForCommit s now commit = Inr (decay_of s now commit)"
  by (simp add: timeDecayForCommit_def decay_of_def)

text \<open>
  C7, as amended. A candidate that is neither a try job nor a force run, and whose
  revision has left the window, gets an empty list of commits and the score
  \<open>- decay\<close>, which is at most 0; \<^verbatim>\<open>getCandidatesToSchedule\<close> never emits it.
\<close>

theorem processTaskCandidate_out_of_window:
  assumes "\<not> IsTryJob c" and "\<not> IsForceRun c"
    and "repos s (Repo c) = Some repo" and "Get repo (Revision c) = Some revision"
    and "\<not> TestTime (window s) (Repo c) (Timestamp revision)"
  shows "\<exists>c'. processTaskCandidate s c now cache commitsBuf = Inr c'
           \<and> Commits c' = [] \<and> Score c' = - decay_of s now revision \<and> Score c' \<le> 0
           \<and> c' \<notin> set (getCandidatesToSchedule bots tasks)"
proof -
  let ?c' = "c\<lparr>Commits := [], Score := - decay_of s now revision\<rparr>"
  have "processTaskCandidate s c now cache commitsBuf = Inr ?c'"
    using assms
    by (simp add: processTaskCandidate_def IsForceRun_def score_candidate_def
          timeDecayForCommit_decay_of testednessIncrease_def)
  moreover have "Score ?c' \<le> 0" using decay_of_nonneg [of s now revision] by simp
  ultimately show ?thesis using score_not_selected [of ?c' bots tasks] by simp
qed

theorem processTaskCandidate_out_of_window_witness:
  "\<not> IsTryJob scenario_candidate \<and> \<not> IsForceRun scenario_candidate
   \<and> repos expired_scheduler (Repo scenario_candidate) = Some scenario_repo
   \<and> Get scenario_repo (Revision scenario_candidate) = Some commit_c5
   \<and> \<not> TestTime (window expired_scheduler) (Repo scenario_candidate) (Timestamp commit_c5)
   \<and> (\<exists>c'. processTaskCandidate expired_scheduler scenario_candidate 100 empty_cache [] = Inr c'
           \<and> Commits c' = [] \<and> Score c' = - decay_of expired_scheduler 100 commit_c5 \<and> Score c' \<le> 0
           \<and> c' \<notin> set (getCandidatesToSchedule scenario_bots [c']))"
proof -
  have h: "\<not> IsTryJob scenario_candidate" "\<not> IsForceRun scenario_candidate"
    "repos expired_scheduler (Repo scenario_candidate) = Some scenario_repo"
    "Get scenario_repo (Revision scenario_candidate) = Some commit_c5"
    "\<not> TestTime (window expired_scheduler) (Repo scenario_candidate) (Timestamp commit_c5)"
    by (simp_all add: expired_scheduler_def scen IsForceRun_def Get_def)
  obtain c' where c': "processTaskCandidate expired_scheduler scenario_candidate 100 empty_cache [] = Inr c'
           \<and> Commits c' = [] \<and> Score c' = - decay_of expired_scheduler 100 commit_c5 \<and> Score c' \<le> 0"
    using processTaskCandidate_out_of_window [OF h] by blast
  then have "c' \<notin> set (getCandidatesToSchedule scenario_bots [c'])"
    using processTaskCandidate_out_of_window [OF h, of 100 empty_cache "[]" scenario_bots "[c']"] by auto
  then show ?thesis using h c' by blast
qed

text \<open>
  C7 as stated fails for a force run: outside the window it gets an empty list of
  commits, but the score \<open>100 + hours\<close>, and it is emitted.
\<close>

theorem force_run_out_of_window_counterexample:
  "\<not> TestTime (window expired_scheduler) (Repo force_candidate) (Timestamp commit_c5)
   \<and> processTaskCandidate expired_scheduler force_candidate 0 empty_cache []
       = Inr (force_candidate\<lparr>Commits := [], Score := 100\<rparr>)
   \<and> getCandidatesToSchedule scenario_bots [force_candidate\<lparr>Commits := [], Score := 100\<rparr>]
       = [force_candidate\<lparr>Commits := [], Score := 100\<rparr>]"
  by (simp add: processTaskCandidate_def expired_scheduler_def force_candidate_def scen Get_def
        IsForceRun_def CANDIDATE_SCORE_FORCE_RUN_def Hours_def
        getCandidatesToSchedule_def sort_candidates_def bots_by_dim_def lookup_dim_def remove_bot_def)

lemma steal_all_found:
  "\<forall>h\<in>set cs. Get repo h \<noteq> None \<Longrightarrow>
     \<exists>buf'. steal_all repo cs buf = (buf', None) \<and> map Hash buf' = map Hash buf @ cs"
proof (induction cs arbitrary: buf)
  case Nil
  then show ?case by simp
next
  case (Cons c cs)
  then obtain ptr where ptr: "Get repo c = Some ptr" by auto
  have rest: "\<forall>h\<in>set cs. Get repo h \<noteq> None" using Cons.prems by simp
  obtain buf' where "steal_all repo cs (buf @ [ptr]) = (buf', None)"
    and "map Hash buf' = map Hash (buf @ [ptr]) @ cs"
    using Cons.IH [OF rest, of "buf @ [ptr]"] by blast
  then show ?case using ptr Get_Hash [OF ptr] by simp
qed

lemma ComputeBlamelist_retry:
  assumes prev: "GetTaskForCommit cache repoName (Hash revision) taskName = Inr (Some prev)"
    and same: "Revision prev = Hash revision"
    and found: "\<forall>h\<in>set (Task.Commits prev). Get repo h \<noteq> None"
  shows "ComputeBlamelist cache repo taskName repoName revision commitsBuf nt
           = Inr (Task.Commits prev, Some prev)"
proof -
  obtain h t ps where rev: "revision = Commit h t ps" by (cases revision)
  obtain buf' where st: "steal_all repo (Task.Commits prev) [] = (buf', None)"
    and hs: "map Hash buf' = Task.Commits prev"
    using steal_all_found [OF found, of "[]"] by auto
  have "blamelist_callback cache repo taskName repoName revision nt revision ([], None)
          = ((buf', Some prev), False, Some ERR_BLAMELIST_DONE)"
    using prev same st by (simp add: blamelist_callback_def MAX_BLAMELIST_COMMITS_def)
  then show ?thesis using hs unfolding ComputeBlamelist_def Recurse_def rev by simp
qed

lemma testednessIncrease_fresh_pos: "0 < n \<Longrightarrow> 0 < testednessIncrease n 0"
  using testedness_ge_one [of n] by (simp add: testednessIncrease_def)

lemma testednessIncrease_same: "testednessIncrease n n \<le> 0 \<and> (0 < n \<longrightarrow> testednessIncrease n n = 0)"
  by (simp add: testednessIncrease_def testedness_def)

text \<open>
  C1, as amended. Let a candidate (neither try job nor force run, revision inside the
  window) steal its blamelist verbatim from the prior task at the same revision. If its
  \<open>RetryOf\<close> is set, it is scored as a new task: \<open>testednessIncrease(n, 0)\<close> times the
  decay, for a blamelist of \<open>n\<close> commits, which is positive when the blamelist is not
  empty and the decay is positive. Only if its \<open>RetryOf\<close> is empty does the score
  use the length stolen from: the score is then at most 0 (0 for a blamelist that is
  not empty) and \<^verbatim>\<open>getCandidatesToSchedule\<close> never emits the candidate.
\<close>

theorem processTaskCandidate_same_revision:
  assumes "\<not> IsTryJob c" and "\<not> IsForceRun c"
    and "repos s (Repo c) = Some repo" and "Get repo (Revision c) = Some revision"
    and "TestTime (window s) (Repo c) (Timestamp revision)"
    and "GetTaskForCommit cache (Repo c) (Revision c) (Name c) = Inr (Some prev)"
    and "Revision prev = Revision c"
    and "\<forall>h\<in>set (Task.Commits prev). Get repo h \<noteq> None"
  shows "\<exists>c'. processTaskCandidate s c now cache commitsBuf = Inr c'
           \<and> Commits c' = Task.Commits prev \<and> StealingFromId c' = Task.Id prev
           \<and> (RetryOf c \<noteq> [] \<longrightarrow>
                Score c' = testednessIncrease (int (length (Task.Commits prev))) 0
                             * decay_of s now revision
                \<and> (Task.Commits prev \<noteq> [] \<and> 0 < decay_of s now revision \<longrightarrow> 0 < Score c'))
           \<and> (RetryOf c = [] \<longrightarrow>
                Score c' \<le> 0 \<and> (Task.Commits prev \<noteq> [] \<longrightarrow> Score c' = 0)
                \<and> c' \<notin> set (getCandidatesToSchedule bots tasks))"
proof -
  let ?n = "int (length (Task.Commits prev))"
  let ?m = "if RetryOf c \<noteq> [] then 0 else ?n"
  let ?c' = "c\<lparr>Commits := Task.Commits prev, StealingFromId := Task.Id prev,
               Score := testednessIncrease ?n ?m * decay_of s now revision\<rparr>"
  have hash: "Hash revision = Revision c" using assms(4) by (rule Get_Hash)
  have bl: "ComputeBlamelist cache repo (Name c) (Repo c) revision commitsBuf (newTasks s)
              = Inr (Task.Commits prev, Some prev)"
    using ComputeBlamelist_retry [of cache "Repo c" revision "Name c" prev repo] assms(6-8) hash
    by simp
  have run: "processTaskCandidate s c now cache commitsBuf = Inr ?c'"
    using assms(1-5) bl
    by (simp add: processTaskCandidate_def IsForceRun_def score_candidate_def
          timeDecayForCommit_decay_of)
  have d: "0 \<le> decay_of s now revision" by (rule decay_of_nonneg)
  have retry: "RetryOf c \<noteq> [] \<Longrightarrow> Task.Commits prev \<noteq> [] \<Longrightarrow> 0 < decay_of s now revision
                 \<Longrightarrow> 0 < Score ?c'"
    using testednessIncrease_fresh_pos [of ?n] by simp
  have same: "RetryOf c = [] \<Longrightarrow> Score ?c' \<le> 0 \<and> (Task.Commits prev \<noteq> [] \<longrightarrow> Score ?c' = 0)"
    using testednessIncrease_same [of ?n] d by (simp add: mult_le_0_iff)
  have "RetryOf c = [] \<Longrightarrow> ?c' \<notin> set (getCandidatesToSchedule bots tasks)"
    using same score_not_selected [of ?c' bots tasks] by blast
  then show ?thesis using run retry same by auto
qed

lemmas retry_scen = retry_scheduler_def retry_candidate_def retry_cache_def failed_task_def

theorem processTaskCandidate_same_revision_witness:
  "\<exists>c'. processTaskCandidate retry_scheduler retry_candidate 100 retry_cache [] = Inr c'
      \<and> Commits c' = [''c5'', ''c4'', ''c3'', ''c2'', ''c1''] \<and> StealingFromId c' = ''t1''
      \<and> Score c' = 34 / 5"
proof -
  have h: "\<not> IsTryJob retry_candidate" "\<not> IsForceRun retry_candidate"
    "repos retry_scheduler (Repo retry_candidate) = Some scenario_repo"
    "Get scenario_repo (Revision retry_candidate) = Some commit_c5"
    "TestTime (window retry_scheduler) (Repo retry_candidate) (Timestamp commit_c5)"
    "GetTaskForCommit retry_cache (Repo retry_candidate) (Revision retry_candidate)
       (Name retry_candidate) = Inr (Some failed_task)"
    "Revision failed_task = Revision retry_candidate"
    "\<forall>h\<in>set (Task.Commits failed_task). Get scenario_repo h \<noteq> None"
    by (simp_all add: retry_scen scen IsForceRun_def Get_def)
  have r: "RetryOf retry_candidate \<noteq> []" by (simp add: retry_scen scen)
  have t: "testednessIncrease (int (length (Task.Commits failed_task))) 0
             * decay_of retry_scheduler 100 commit_c5 = 34 / 5"
    by (simp add: retry_scen scen testednessIncrease_def testedness_def decay_of_def)
  show ?thesis
    using processTaskCandidate_same_revision [OF h, of 100 "[]" "[]" "[]"] r t
    by (auto simp: failed_task_def)
qed

text \<open>
  C1 as stated fails in the second scenario of the specification: the retry of the
  failed task at \<open>c5\<close> passes the filter with \<open>RetryOf\<close> set, gets the score
  \<open>T(5) + 5 = 6.8\<close>, and is matched to the free bot.
\<close>

theorem retry_candidate_counterexample:
  "filter_candidate 2 retry_scheduler scenario_candidate = Inr (Some retry_candidate)
   \<and> RetryOf retry_candidate = ''t1''
   \<and> processTaskCandidate retry_scheduler retry_candidate 100 retry_cache []
       = Inr (retry_candidate\<lparr>Commits := [''c5'', ''c4'', ''c3'', ''c2'', ''c1''],
                               StealingFromId := ''t1'', Score := 34 / 5\<rparr>)
   \<and> getCandidatesToSchedule scenario_bots
        [retry_candidate\<lparr>Commits := [''c5'', ''c4'', ''c3'', ''c2'', ''c1''],
                          StealingFromId := ''t1'', Score := 34 / 5\<rparr>]
       = [retry_candidate\<lparr>Commits := [''c5'', ''c4'', ''c3'', ''c2'', ''c1''],
                           StealingFromId := ''t1'', Score := 34 / 5\<rparr>]"
  by (simp add: filter_candidate_def filter_dependencies_def allDepsMet_def TaskKey.truncate_def
        Success_def
        processTaskCandidate_def ComputeBlamelist_def Recurse_def blamelist_callback_def
        retry_scen scen MAX_BLAMELIST_COMMITS_def Get_def IsForceRun_def score_candidate_def
        timeDecayForCommit_def testednessIncrease_def testedness_def
        getCandidatesToSchedule_def sort_candidates_def bots_by_dim_def lookup_dim_def
        remove_bot_def)

text \<open>
  C8 as stated fails: neither \<open>T(5) + 5\<close> nor \<open>testednessIncrease(5, 0)\<close> nor the
  score of the candidate of the first scenario is \<open>5.8\<close>.
\<close>

theorem fresh_history_score_counterexample:
  "testedness 5 + 5 \<noteq> 29 / 5
   \<and> testednessIncrease 5 0 \<noteq> 29 / 5
   \<and> processTaskCandidate scenario_scheduler scenario_candidate 0 empty_cache []
       \<noteq> Inr (scenario_candidate\<lparr>Commits := [''c5'', ''c4'', ''c3'', ''c2'', ''c1''],
                                  Score := 29 / 5\<rparr>)"
  by (simp add: processTaskCandidate_def ComputeBlamelist_def Recurse_def blamelist_callback_def
        add_commit_def scen MAX_BLAMELIST_COMMITS_def Get_def IsForceRun_def score_candidate_def
        timeDecayForCommit_def testednessIncrease_def testedness_def)

text \<open>
  C8, as amended. In the first scenario of the specification (five commits, one task
  spec, no prior tasks, no time decay) the blamelist of the candidate at \<open>c5\<close> is all
  five commits and its score is \<open>T(5) + 5 = 6.8\<close>; equivalently,
  \<open>testednessIncrease(5, 0) = 6.8\<close>.
\<close>

theorem fresh_history_score:
  "processTaskCandidate scenario_scheduler scenario_candidate now empty_cache []
     = Inr (scenario_candidate\<lparr>Commits := [''c5'', ''c4'', ''c3'', ''c2'', ''c1''],
                                Score := 34 / 5\<rparr>)
   \<and> testedness 5 + 5 = 34 / 5
   \<and> testednessIncrease 5 0 = 34 / 5"
  by (simp add: processTaskCandidate_def ComputeBlamelist_def Recurse_def blamelist_callback_def
        add_commit_def scen MAX_BLAMELIST_COMMITS_def Get_def IsForceRun_def score_candidate_def
        timeDecayForCommit_def testednessIncrease_def testedness_def)

section \<open>Properties of the candidate filter\<close>

lemma filter_dependencies_key:
  "filter_dependencies s c = Inr (Some c') \<Longrightarrow> TaskKey.truncate c' = TaskKey.truncate c"
  by (auto simp: filter_dependencies_def TaskKey.truncate_def split: sum.splits if_splits)

lemma filter_candidate_key:
  "filter_candidate d s c = Inr (Some c') \<Longrightarrow> TaskKey.truncate c' = TaskKey.truncate c"
  by (auto simp: filter_candidate_def Let_def TaskKey.truncate_def
        split: sum.splits if_splits dest!: filter_dependencies_key)

lemma filter_candidate_last:
  assumes "GetTasksByKey (tCache s) (TaskKey.truncate c) = Inr prevTasks"
    and "prevTasks \<noteq> []"
    and "Task.Status (last prevTasks) = TASK_STATUS_PENDING
         \<or> Task.Status (last prevTasks) = TASK_STATUS_RUNNING
         \<or> Success (last prevTasks)"
  shows "filter_candidate d s c \<noteq> Inr (Some c')"
  using assms
  by (auto simp: filter_candidate_def Let_def last_conv_nth split: sum.splits)

lemma bucket_add_candidate:
  "set (bucket (add_candidate c bySpec) repo name)
     \<subseteq> insert c (set (bucket bySpec repo name))"
  by (auto simp: bucket_def add_candidate_def Let_def split: option.splits if_splits)

lemma filter_loop_members:
  "filter_loop d s cs bySpec = Inr result \<Longrightarrow> c' \<in> set (bucket result repo name) \<Longrightarrow>
     c' \<in> set (bucket bySpec repo name) \<or> (\<exists>c\<in>set cs. filter_candidate d s c = Inr (Some c'))"
proof (induction cs arbitrary: bySpec)
  case Nil
  then show ?case by simp
next
  case (Cons c cs)
  show ?case
  proof (cases "filter_candidate d s c")
    case (Inl err)
    then show ?thesis using Cons.prems by simp
  next
    case (Inr r)
    show ?thesis
    proof (cases r)
      case None
      then show ?thesis using Cons Inr by auto
    next
      case (Some c1)
      then have "filter_loop d s cs (add_candidate c1 bySpec) = Inr result"
        using Cons.prems(1) Inr by simp
      then have "c' \<in> set (bucket (add_candidate c1 bySpec) repo name)
                 \<or> (\<exists>c\<in>set cs. filter_candidate d s c = Inr (Some c'))"
        using Cons.IH Cons.prems(2) by blast
      then show ?thesis using bucket_add_candidate [of c1 bySpec repo name] Inr Some by auto
    qed
  qed
qed

text \<open>
  C5, as amended. \<^verbatim>\<open>filterTaskCandidates\<close> rejects every candidate for whose key
  the most recently created prior task (the last one that the cache returns) is
  pending or running, or succeeded: no candidate with that key is in a bucket of the
  result. Earlier tasks of the key are not looked at.
\<close>

theorem filterTaskCandidates_rejects_last:
  assumes "filterTaskCandidates d s preFilterCandidates = Inr result"
    and "GetTasksByKey (tCache s) key = Inr prevTasks"
    and "prevTasks \<noteq> []"
    and "Task.Status (last prevTasks) = TASK_STATUS_PENDING
         \<or> Task.Status (last prevTasks) = TASK_STATUS_RUNNING
         \<or> Success (last prevTasks)"
  shows "\<forall>c'\<in>set (bucket result repo name). TaskKey.truncate c' \<noteq> key"
proof
  fix c'
  assume "c' \<in> set (bucket result repo name)"
  then have "c' \<in> set (bucket Map.empty repo name)
             \<or> (\<exists>c\<in>set preFilterCandidates. filter_candidate d s c = Inr (Some c'))"
    using filter_loop_members [of d s preFilterCandidates Map.empty result c' repo name] assms(1)
    by (simp add: filterTaskCandidates_def)
  then obtain c where c: "filter_candidate d s c = Inr (Some c')" by (auto simp: bucket_def)
  show "TaskKey.truncate c' \<noteq> key"
  proof
    assume "TaskKey.truncate c' = key"
    then have "TaskKey.truncate c = key" using filter_candidate_key [OF c] by simp
    then show False using filter_candidate_last [of s c prevTasks d c'] assms(2-4) c by simp
  qed
qed

theorem filterTaskCandidates_rejects_last_witness:
  "filterTaskCandidates 2 failure_then_success_scheduler [scenario_candidate, other_candidate]
     = Inr [''repo'' \<mapsto> [''S2'' \<mapsto> [other_candidate]]]
   \<and> bucket [''repo'' \<mapsto> [''S2'' \<mapsto> [other_candidate]]] ''repo'' ''S2'' = [other_candidate]
   \<and> bucket [''repo'' \<mapsto> [''S2'' \<mapsto> [other_candidate]]] ''repo'' ''S'' = []
   \<and> Success (last [failed_task, retried_task])
   \<and> TaskKey.truncate other_candidate \<noteq> TaskKey.truncate scenario_candidate"
proof -
  have e: "filterTaskCandidates 2 failure_then_success_scheduler [scenario_candidate, other_candidate]
     = Inr [''repo'' \<mapsto> [''S2'' \<mapsto> [other_candidate]]]"
    by (simp add: filterTaskCandidates_def filter_candidate_def filter_dependencies_def
          allDepsMet_def add_candidate_def TaskKey.truncate_def Success_def
          failure_then_success_scheduler_def failure_then_success_cache_def retried_task_def
          failed_task_def other_candidate_def scen)
  have k: "GetTasksByKey (tCache failure_then_success_scheduler) (TaskKey.truncate scenario_candidate)
             = Inr [failed_task, retried_task]"
    by (simp add: TaskKey.truncate_def failure_then_success_scheduler_def
          failure_then_success_cache_def failed_task_def scen)
  have n: "[failed_task, retried_task] \<noteq> []" by simp
  have l: "Task.Status (last [failed_task, retried_task]) = TASK_STATUS_PENDING
         \<or> Task.Status (last [failed_task, retried_task]) = TASK_STATUS_RUNNING
         \<or> Success (last [failed_task, retried_task])"
    by (simp add: Success_def retried_task_def)
  have b: "bucket [''repo'' \<mapsto> [''S2'' \<mapsto> [other_candidate]]] ''repo'' ''S2'' = [other_candidate]"
    "bucket [''repo'' \<mapsto> [''S2'' \<mapsto> [other_candidate]]] ''repo'' ''S'' = []"
    by (simp_all add: bucket_def)
  have s: "Success (last [failed_task, retried_task])" by (simp add: Success_def retried_task_def)
  show ?thesis
    using filterTaskCandidates_rejects_last [OF e k n l, of "''repo''" "''S2''"] e b s by simp
qed

text \<open>
  C5 as stated fails when a task that succeeded is followed by a failed one for the same
  key: the candidate passes the filter, as a retry of the failed task.
\<close>

lemmas scen7 = success_then_failure_scheduler_def success_then_failure_cache_def succeeded_task_def
  failed_task_def

theorem filterTaskCandidates_earlier_success_counterexample:
  "GetTasksByKey (tCache success_then_failure_scheduler) (TaskKey.truncate scenario_candidate)
     = Inr [succeeded_task, failed_task]
   \<and> Success succeeded_task
   \<and> (case filterTaskCandidates 2 success_then_failure_scheduler [scenario_candidate] of
        Inl err \<Rightarrow> False
      | Inr result \<Rightarrow> bucket result ''repo'' ''S'' = [retry_candidate])"
  by (simp add: filterTaskCandidates_def filter_candidate_def filter_dependencies_def allDepsMet_def
        add_candidate_def bucket_def
        TaskKey.truncate_def Success_def scen7 scen retry_candidate_def)

section \<open>Properties of job cancellation\<close>

text \<open>
  C9, as amended. After \<^verbatim>\<open>CancelJob\<close> has canceled a job, a second call for the
  same job is rejected with the error ``already finished''; it leaves the scheduler as
  it is, and the job stays canceled with the finished time of the first call.
\<close>

theorem CancelJob_again_rejected:
  assumes first: "CancelJob s now jid = ((Some j, None), s')" and jid: "Job.Id j = jid"
  shows "CancelJob s' now' jid = ((None, Some (JobAlreadyFinished jid JOB_STATUS_CANCELED)), s')
         \<and> GetJobMaybeExpired s' jid = Inr j
         \<and> Job.Status j = JOB_STATUS_CANCELED \<and> Finished j = now"
proof -
  obtain j0 where j0: "GetJobMaybeExpired s jid = Inr j0" and nd: "\<not> Done j0"
    using first by (auto simp: CancelJob_def split: sum.splits if_splits)
  let ?j2 = "j0\<lparr>Job.Status := JOB_STATUS_CANCELED, Finished := now\<rparr>"
  have fin: "jobFinished now (j0\<lparr>Job.Status := JOB_STATUS_CANCELED\<rparr>) = Inr ?j2"
    by (simp add: jobFinished_def Done_def)
  have pe: "put_error (db s) = None" and ue: "update_error (jCache s) = None"
    using first j0 nd fin
    by (auto simp: CancelJob_def PutJob_def Update_def Let_def split: option.splits)
  let ?s1 = "s\<lparr>db := (db s)\<lparr>stored_jobs := (stored_jobs (db s))(Job.Id ?j2 \<mapsto> ?j2)\<rparr>\<rparr>"
  let ?s2 = "?s1\<lparr>jCache := (jCache ?s1)\<lparr>cached_jobs := stored_jobs (db ?s1)\<rparr>\<rparr>"
  have res: "CancelJob s now jid = ((Some ?j2, None), ?s2)"
    using j0 nd fin pe ue by (simp add: CancelJob_def PutJob_def Update_def Let_def)
  then have j: "j = ?j2" and s': "s' = ?s2" using first by simp_all
  have id: "Job.Id j0 = jid" using jid j by simp
  have get: "GetJobMaybeExpired s' jid = Inr j"
    unfolding s' j using id by (simp add: GetJobMaybeExpired_def)
  have "Done j" unfolding j by (simp add: Done_def)
  then have "CancelJob s' now' jid = ((None, Some (JobAlreadyFinished jid (Job.Status j))), s')"
    using get by (simp add: CancelJob_def)
  then show ?thesis using get j by simp
qed

lemmas job_scen = job_scheduler_def running_job_def scenario_scheduler_def

theorem CancelJob_again_rejected_witness:
  "CancelJob job_scheduler 5 ''j1''
     = ((Some (running_job\<lparr>Job.Status := JOB_STATUS_CANCELED, Finished := 5\<rparr>), None),
        snd (CancelJob job_scheduler 5 ''j1''))
   \<and> Job.Id (running_job\<lparr>Job.Status := JOB_STATUS_CANCELED, Finished := 5\<rparr>) = ''j1''
   \<and> CancelJob (snd (CancelJob job_scheduler 5 ''j1'')) 6 ''j1''
       = ((None, Some (JobAlreadyFinished ''j1'' JOB_STATUS_CANCELED)),
          snd (CancelJob job_scheduler 5 ''j1''))
   \<and> GetJobMaybeExpired (snd (CancelJob job_scheduler 5 ''j1'')) ''j1''
       = Inr (running_job\<lparr>Job.Status := JOB_STATUS_CANCELED, Finished := 5\<rparr>)"
proof -
  have a: "fst (CancelJob job_scheduler 5 ''j1'')
             = (Some (running_job\<lparr>Job.Status := JOB_STATUS_CANCELED, Finished := 5\<rparr>), None)"
    by (simp add: CancelJob_def GetJobMaybeExpired_def Done_def jobFinished_def PutJob_def
          Update_def job_scen)
  then have b: "CancelJob job_scheduler 5 ''j1''
     = ((Some (running_job\<lparr>Job.Status := JOB_STATUS_CANCELED, Finished := 5\<rparr>), None),
        snd (CancelJob job_scheduler 5 ''j1''))"
    by (metis prod.collapse)
  have c: "Job.Id (running_job\<lparr>Job.Status := JOB_STATUS_CANCELED, Finished := 5\<rparr>) = ''j1''"
    by (simp add: running_job_def)
  show ?thesis using CancelJob_again_rejected [OF b c, of 6] b c by simp
qed

text \<open>
  C9 as stated fails: the second call does not return what the first call returned.
\<close>

theorem CancelJob_not_idempotent_counterexample:
  "fst (CancelJob job_scheduler 5 ''j1'')
     = (Some (running_job\<lparr>Job.Status := JOB_STATUS_CANCELED, Finished := 5\<rparr>), None)
   \<and> fst (CancelJob (snd (CancelJob job_scheduler 5 ''j1'')) 6 ''j1'')
     = (None, Some (JobAlreadyFinished ''j1'' JOB_STATUS_CANCELED))"
  by (simp add: CancelJob_def GetJobMaybeExpired_def Done_def jobFinished_def PutJob_def
        Update_def job_scen)

end
